theory Spec2Isabelle
  imports Main
begin

section \<open>Saladin Pharma service worker (sw.js): the caching layer\<close>

text \<open>
  The worker sits between the application's requests and the network. Its own state is
  the host's partition store (CacheStorage); the network is the host's \<open>fetch\<close>.
  Both are made explicit here: every handler takes the state, and the outcome of the
  network for each request identity, and returns its answer with the new state.

  Asynchronous code: what the source awaits happens at the place of the \<open>await\<close>.
  What it starts without awaiting (\<open>cache.put\<close>, \<open>limitCacheSize\<close>, the
  background fetch of stale-while-revalidate) settles after the handler has gone on, and
  the state a handler returns is the state once everything it started has settled. Where
  \<open>cache.put\<close> is followed by \<open>limitCacheSize\<close>, neither awaited, the
  eviction pass reads the key list before the put has committed: it trims the partition
  as it was, and the new entry lands after it.
\<close>

subsection \<open>Strings\<close>

definition startsWith :: "string \<Rightarrow> string \<Rightarrow> bool" where
  "startsWith s p = (take (length p) s = p)"

fun includes_str :: "string \<Rightarrow> string \<Rightarrow> bool" where
  "includes_str [] sub = (sub = [])"
| "includes_str (c # cs) sub = (startsWith (c # cs) sub \<or> includes_str cs sub)"

subsection \<open>Configuration (sw.js, lines 5 to 37)\<close>

definition CACHE_VERSION :: string where
  "CACHE_VERSION = ''saladin-pharma-v3.0.0''"

definition CACHE_STATIC :: string where
  "CACHE_STATIC = CACHE_VERSION @ ''-static''"

definition CACHE_DYNAMIC :: string where
  "CACHE_DYNAMIC = CACHE_VERSION @ ''-dynamic''"

definition CACHE_CDN :: string where
  "CACHE_CDN = CACHE_VERSION @ ''-cdn''"

definition STATIC_ASSETS :: "string list" where
  "STATIC_ASSETS = [''/'', ''/index.html'', ''/manifest.json'']"

definition CDN_RESOURCES :: "string list" where
  "CDN_RESOURCES =
     [''https://cdn.tailwindcss.com'',
      ''https://unpkg.com/dexie@3.2.4/dist/dexie.min.js'',
      ''https://cdn.jsdelivr.net/npm/chart.js'',
      ''https://cdnjs.cloudflare.com/ajax/libs/jspdf/2.5.1/jspdf.umd.min.js'',
      ''https://fonts.googleapis.com/css2?family=Inter:wght@300;400;500;600;700;800;900&display=swap'']"

definition FIREBASE_HOSTS :: "string list" where
  "FIREBASE_HOSTS =
     [''firebaseapp.com'', ''googleapis.com'', ''gstatic.com'', ''firebaseio.com'',
      ''firestore.googleapis.com'']"

definition MAX_DYNAMIC_CACHE_SIZE :: nat where
  "MAX_DYNAMIC_CACHE_SIZE = 50"

definition MAX_CDN_CACHE_SIZE :: nat where
  "MAX_CDN_CACHE_SIZE = 30"

subsection \<open>Requests, responses, the network\<close>

text \<open>
  A request carries what the worker reads of it: \<open>request.url\<close>, \<open>request.method\<close> (\<open>req_method\<close>),
  the \<open>accept\<close> header (absent or a string), and the three components of
  \<open>new URL(request.url)\<close> that the handlers look at. The identity under which the
  store keeps an entry is the URL: only GET requests reach the strategies.
\<close>

record request =
  url :: string
  req_method :: string
  protocol :: string
  hostname :: string
  pathname :: string
  accept :: "string option"

record response =
  status :: nat
  statusText :: string
  body :: string

definition ok :: "response \<Rightarrow> bool" where
  "ok r = (200 \<le> status r \<and> status r \<le> 299)"

datatype net_outcome = NetworkError | Received response

type_synonym network = "string \<Rightarrow> net_outcome"

text \<open>What a strategy hands to \<open>event.respondWith\<close>: a response, \<open>null\<close>, or a
  rejected promise.\<close>

datatype answer = Answer response | Null | Rejected

datatype fetch_event = PassThrough | RespondWith answer

subsection \<open>The partition store of the host\<close>

text \<open>
  A partition is the list of its entries, oldest first; the store is the list of the
  named partitions in the order of their creation. \<open>available\<close> is False when the
  store cannot be reached: every operation on it then rejects. \<open>fetched\<close> logs the
  identities the worker itself asked the network for; \<open>skipWaiting\<close> and
  \<open>claimed\<close> record the calls of \<open>self.skipWaiting()\<close> and
  \<open>self.clients.claim()\<close>.
\<close>

type_synonym partition = "(string \<times> response) list"

record sw_state =
  storage :: "(string \<times> partition) list"
  available :: bool
  fetched :: "string list"
  skipWaiting :: bool
  claimed :: bool

definition caches_keys :: "sw_state \<Rightarrow> string list" where
  "caches_keys st = map fst (storage st)"

definition caches_open :: "string \<Rightarrow> sw_state \<Rightarrow> sw_state option" where
  "caches_open cacheName st =
     (if \<not> available st then None
      else if cacheName \<in> set (caches_keys st) then Some st
      else Some (st\<lparr>storage := storage st @ [(cacheName, [])]\<rparr>))"

definition caches_delete :: "string \<Rightarrow> sw_state \<Rightarrow> sw_state" where
  "caches_delete cacheName st =
     st\<lparr>storage := filter (\<lambda>(n, es). n \<noteq> cacheName) (storage st)\<rparr>"

definition cache_entries :: "string \<Rightarrow> sw_state \<Rightarrow> partition" where
  "cache_entries cacheName st =
     (case map_of (storage st) cacheName of None \<Rightarrow> [] | Some es \<Rightarrow> es)"

definition cache_keys :: "string \<Rightarrow> sw_state \<Rightarrow> string list" where
  "cache_keys cacheName st = map fst (cache_entries cacheName st)"

definition cache_match :: "string \<Rightarrow> string \<Rightarrow> sw_state \<Rightarrow> response option" where
  "cache_match cacheName key st = map_of (cache_entries cacheName st) key"

definition update_partition ::
  "string \<Rightarrow> (partition \<Rightarrow> partition) \<Rightarrow> sw_state \<Rightarrow> sw_state" where
  "update_partition cacheName f st =
     st\<lparr>storage := map (\<lambda>(n, es). if n = cacheName then (n, f es) else (n, es)) (storage st)\<rparr>"

definition remove_key :: "string \<Rightarrow> partition \<Rightarrow> partition" where
  "remove_key key es = filter (\<lambda>(k, r). k \<noteq> key) es"

text \<open>\<open>cache.put\<close> replaces: the entry of the same identity is removed and the new
  one is appended, so the entry written last is the newest.\<close>

definition cache_put :: "string \<Rightarrow> string \<Rightarrow> response \<Rightarrow> sw_state \<Rightarrow> sw_state" where
  "cache_put cacheName key r st =
     update_partition cacheName (\<lambda>es. remove_key key es @ [(key, r)]) st"

definition cache_delete :: "string \<Rightarrow> string \<Rightarrow> sw_state \<Rightarrow> sw_state" where
  "cache_delete cacheName key st = update_partition cacheName (remove_key key) st"

text \<open>\<open>caches.match\<close> looks through every partition, in the order of creation, and
  gives the first entry found.\<close>

fun storage_match :: "string \<Rightarrow> (string \<times> partition) list \<Rightarrow> response option" where
  "storage_match key [] = None"
| "storage_match key ((n, es) # cs) =
     (case map_of es key of Some r \<Rightarrow> Some r | None \<Rightarrow> storage_match key cs)"

definition caches_match :: "string \<Rightarrow> sw_state \<Rightarrow> response option" where
  "caches_match key st = storage_match key (storage st)"

definition fetch :: "network \<Rightarrow> request \<Rightarrow> sw_state \<Rightarrow> net_outcome \<times> sw_state" where
  "fetch net req st = (net (url req), st\<lparr>fetched := fetched st @ [url req]\<rparr>)"

definition fetched_ok :: "network \<Rightarrow> string \<Rightarrow> bool" where
  "fetched_ok net key = (case net key of NetworkError \<Rightarrow> False | Received r \<Rightarrow> ok r)"

definition put_fetched :: "network \<Rightarrow> string \<Rightarrow> string \<Rightarrow> sw_state \<Rightarrow> sw_state" where
  "put_fetched net cacheName key st =
     (case net key of NetworkError \<Rightarrow> st | Received r \<Rightarrow> cache_put cacheName key r st)"

text \<open>
  \<open>cache.addAll\<close> fetches every URL of the list, resolved against the worker's
  location by the host (\<open>absolute\<close>), and writes the entries only when every fetch
  came back with an ok response; otherwise it rejects and writes nothing. It also
  rejects, after the fetches and without writing, a list that names a request twice. The
  first component says whether it fulfilled.
\<close>

definition cache_addAll ::
  "(string \<Rightarrow> string) \<Rightarrow> network \<Rightarrow> string \<Rightarrow> string list \<Rightarrow> sw_state \<Rightarrow> bool \<times> sw_state" where
  "cache_addAll absolute net cacheName urls st =
     (let keys = map absolute urls;
          st1 = st\<lparr>fetched := fetched st @ keys\<rparr>
      in if list_all (fetched_ok net) keys \<and> distinct urls
         then (True, fold (put_fetched net cacheName) keys st1)
         else (False, st1))"

subsection \<open>Utility functions (sw.js, lines 336 to 378)\<close>

definition limitCacheSize :: "string \<Rightarrow> nat \<Rightarrow> sw_state \<Rightarrow> sw_state" where
  "limitCacheSize cacheName maxSize st =
     (case caches_open cacheName st of
        None \<Rightarrow> st
      | Some st1 \<Rightarrow>
          (let keys = cache_keys cacheName st1
           in if length keys > maxSize
              then (let deleteCount = length keys - maxSize
                    in fold (cache_delete cacheName) (take deleteCount keys) st1)
              else st1))"

definition clearAllCaches :: "sw_state \<Rightarrow> sw_state" where
  "clearAllCaches st =
     (if \<not> available st then st
      else fold caches_delete (caches_keys st) st)"

text \<open>\<open>cacheUrls(urls)\<close>; the argument is \<open>event.data.urls\<close>, which a message may
  lack: \<open>addAll\<close> then throws, and the handler catches it.\<close>

definition cacheUrls ::
  "(string \<Rightarrow> string) \<Rightarrow> network \<Rightarrow> string list option \<Rightarrow> sw_state \<Rightarrow> sw_state" where
  "cacheUrls absolute net urls st =
     (case caches_open CACHE_DYNAMIC st of
        None \<Rightarrow> st
      | Some st1 \<Rightarrow>
          (case urls of
             None \<Rightarrow> st1
           | Some us \<Rightarrow> snd (cache_addAll absolute net CACHE_DYNAMIC us st1)))"

subsection \<open>Fetch strategies (sw.js, lines 144 to 229)\<close>

definition offline_resource :: response where
  "offline_resource =
     \<lparr>status = 503, statusText = ''Service Unavailable'',
      body = ''Offline - Resource not available''\<rparr>"

definition offline_no_cache :: response where
  "offline_no_cache =
     \<lparr>status = 503, statusText = ''Service Unavailable'',
      body = ''Offline - No cached version available''\<rparr>"

definition accepts_html :: "request \<Rightarrow> bool" where
  "accepts_html req =
     (case accept req of None \<Rightarrow> False | Some a \<Rightarrow> includes_str a ''text/html'')"

definition cacheFirst :: "network \<Rightarrow> request \<Rightarrow> string \<Rightarrow> sw_state \<Rightarrow> answer \<times> sw_state" where
  "cacheFirst net req cacheName st =
     (case caches_open cacheName st of
        None \<Rightarrow> (Answer offline_resource, st)
      | Some st1 \<Rightarrow>
          (case cache_match cacheName (url req) st1 of
             Some cachedResponse \<Rightarrow> (Answer cachedResponse, st1)
           | None \<Rightarrow>
               (case fetch net req st1 of
                  (NetworkError, st2) \<Rightarrow> (Answer offline_resource, st2)
                | (Received networkResponse, st2) \<Rightarrow>
                    (Answer networkResponse,
                     if ok networkResponse
                     then cache_put cacheName (url req) networkResponse st2
                     else st2))))"

text \<open>The \<open>catch\<close> block of \<open>networkFirst\<close>; nothing in it is guarded, so a
  store that rejects there makes the strategy reject.\<close>

definition networkFirst_fallback ::
  "(string \<Rightarrow> string) \<Rightarrow> request \<Rightarrow> sw_state \<Rightarrow> answer \<times> sw_state" where
  "networkFirst_fallback absolute req st =
     (if \<not> available st then (Rejected, st)
      else
        (case caches_match (url req) st of
           Some cachedResponse \<Rightarrow> (Answer cachedResponse, st)
         | None \<Rightarrow>
             (if accepts_html req
              then (case caches_open CACHE_STATIC st of
                      None \<Rightarrow> (Rejected, st)
                    | Some st1 \<Rightarrow>
                        (case cache_match CACHE_STATIC (absolute ''/'') st1 of
                           Some fallback \<Rightarrow> (Answer fallback, st1)
                         | None \<Rightarrow> (Answer offline_no_cache, st1)))
              else (Answer offline_no_cache, st))))"

text \<open>
  \<open>networkFirst\<close> gives its answer, the state at the moment the answer is
  returned, and the state once what it started has settled. They differ on the path of an
  ok response: \<open>caches.open\<close> is awaited, \<open>cache.put\<close> and
  \<open>limitCacheSize\<close> are started and not awaited, and
  \<open>return networkResponse\<close> follows at once, so at the return the partition is
  open and nothing is written yet. Afterwards the eviction pass trims the partition as it
  was, and the put commits.
\<close>

definition at_return :: "answer \<times> sw_state \<Rightarrow> answer \<times> sw_state \<times> sw_state" where
  "at_return r = (case r of (a, st) \<Rightarrow> (a, st, st))"

definition networkFirst ::
  "(string \<Rightarrow> string) \<Rightarrow> network \<Rightarrow> request \<Rightarrow> string \<Rightarrow> sw_state \<Rightarrow>
     answer \<times> sw_state \<times> sw_state" where
  "networkFirst absolute net req cacheName st =
     (case fetch net req st of
        (NetworkError, st1) \<Rightarrow> at_return (networkFirst_fallback absolute req st1)
      | (Received networkResponse, st1) \<Rightarrow>
          (if ok networkResponse
           then (case caches_open cacheName st1 of
                   None \<Rightarrow> at_return (networkFirst_fallback absolute req st1)
                 | Some st2 \<Rightarrow>
                     (Answer networkResponse, st2,
                      cache_put cacheName (url req) networkResponse
                        (limitCacheSize cacheName MAX_DYNAMIC_CACHE_SIZE st2)))
           else (Answer networkResponse, st1, st1)))"

definition settled :: "answer \<times> sw_state \<times> sw_state \<Rightarrow> answer \<times> sw_state" where
  "settled r = (case r of (a, returned, st) \<Rightarrow> (a, st))"

definition staleWhileRevalidate ::
  "network \<Rightarrow> request \<Rightarrow> string \<Rightarrow> sw_state \<Rightarrow> answer \<times> sw_state" where
  "staleWhileRevalidate net req cacheName st =
     (case caches_open cacheName st of
        None \<Rightarrow> (Rejected, st)
      | Some st1 \<Rightarrow>
          (let cachedResponse = cache_match cacheName (url req) st1;
               (fetchPromise, st3) =
                  (case fetch net req st1 of
                     (NetworkError, st2) \<Rightarrow> (Null, st2)
                   | (Received networkResponse, st2) \<Rightarrow>
                       (Answer networkResponse,
                        if ok networkResponse
                        then cache_put cacheName (url req) networkResponse
                               (limitCacheSize cacheName MAX_CDN_CACHE_SIZE st2)
                        else st2))
           in (case cachedResponse of
                 Some r \<Rightarrow> (Answer r, st3)
               | None \<Rightarrow> (fetchPromise, st3))))"

definition is_cdn :: "request \<Rightarrow> bool" where
  "is_cdn req =
     (list_ex (\<lambda>cdn. includes_str (url req) cdn) CDN_RESOURCES \<or>
      includes_str (hostname req) ''cdn'' \<or>
      includes_str (hostname req) ''unpkg'' \<or>
      includes_str (hostname req) ''jsdelivr'')"

definition handleFetchRequest ::
  "(string \<Rightarrow> string) \<Rightarrow> network \<Rightarrow> request \<Rightarrow> sw_state \<Rightarrow> answer \<times> sw_state" where
  "handleFetchRequest absolute net req st =
     (if list_ex (\<lambda>asset. pathname req = asset) STATIC_ASSETS
      then cacheFirst net req CACHE_STATIC st
      else if is_cdn req
      then staleWhileRevalidate net req CACHE_CDN st
      else if accepts_html req
      then settled (networkFirst absolute net req CACHE_DYNAMIC st)
      else settled (networkFirst absolute net req CACHE_DYNAMIC st))"

subsection \<open>Event handlers\<close>

definition is_firebase :: "request \<Rightarrow> bool" where
  "is_firebase req = list_ex (\<lambda>host. includes_str (hostname req) host) FIREBASE_HOSTS"

definition on_fetch ::
  "(string \<Rightarrow> string) \<Rightarrow> network \<Rightarrow> request \<Rightarrow> sw_state \<Rightarrow> fetch_event \<times> sw_state" where
  "on_fetch absolute net req st =
     (if req_method req \<noteq> ''GET'' then (PassThrough, st)
      else if is_firebase req then (PassThrough, st)
      else if \<not> startsWith (protocol req) ''http'' then (PassThrough, st)
      else (case handleFetchRequest absolute net req st of
              (a, st') \<Rightarrow> (RespondWith a, st')))"

text \<open>
  The install handler. The first component is the promise given to
  \<open>event.waitUntil\<close>: True when it fulfils, False when it rejects. The chain ends in
  a \<open>catch\<close> that logs and returns, so a failure of \<open>caches.open\<close> or
  \<open>addAll\<close> ends in a fulfilled promise, without the call of \<open>skipWaiting\<close>.
\<close>

definition on_install ::
  "(string \<Rightarrow> string) \<Rightarrow> network \<Rightarrow> sw_state \<Rightarrow> bool \<times> sw_state" where
  "on_install absolute net st =
     (case caches_open CACHE_STATIC st of
        None \<Rightarrow> (True, st)
      | Some st1 \<Rightarrow>
          (case cache_addAll absolute net CACHE_STATIC STATIC_ASSETS st1 of
             (True, st2) \<Rightarrow> (True, st2\<lparr>skipWaiting := True\<rparr>)
           | (False, st2) \<Rightarrow> (True, st2)))"

text \<open>The host's rule for the install phase: the worker is installed when the promise
  given to \<open>waitUntil\<close> fulfils, and discarded when it rejects.\<close>

datatype phase = Installed | Redundant

definition install_phase :: "bool \<Rightarrow> phase" where
  "install_phase fulfilled = (if fulfilled then Installed else Redundant)"

definition is_old_cache :: "string \<Rightarrow> bool" where
  "is_old_cache cacheName =
     (startsWith cacheName ''saladin-pharma-'' \<and>
      cacheName \<noteq> CACHE_STATIC \<and>
      cacheName \<noteq> CACHE_DYNAMIC \<and>
      cacheName \<noteq> CACHE_CDN)"

definition on_activate :: "sw_state \<Rightarrow> bool \<times> sw_state" where
  "on_activate st =
     (if \<not> available st then (False, st)
      else
        (let st1 = fold (\<lambda>cacheName s. if is_old_cache cacheName
                                        then caches_delete cacheName s else s)
                     (caches_keys st) st
         in (True, st1\<lparr>claimed := True\<rparr>)))"

record message =
  msg_type :: string
  msg_urls :: "string list option"

definition on_message ::
  "(string \<Rightarrow> string) \<Rightarrow> network \<Rightarrow> message option \<Rightarrow> sw_state \<Rightarrow> sw_state" where
  "on_message absolute net data st =
     (case data of
        None \<Rightarrow> st
      | Some m \<Rightarrow>
          (let st1 = (if msg_type m = ''SKIP_WAITING'' then st\<lparr>skipWaiting := True\<rparr> else st);
               st2 = (if msg_type m = ''CLEAR_CACHE'' then clearAllCaches st1 else st1);
               st3 = (if msg_type m = ''CACHE_URLS''
                      then cacheUrls absolute net (msg_urls m) st2 else st2)
           in st3))"

subsection \<open>Example data\<close>

text \<open>Concrete requests, responses and states, on which the theorems below are run.\<close>

definition resp :: "string \<Rightarrow> response" where
  "resp b = \<lparr>status = 200, statusText = ''OK'', body = b\<rparr>"

definition state_of :: "(string \<times> partition) list \<Rightarrow> sw_state" where
  "state_of cs =
     \<lparr>storage = cs, available = True, fetched = [], skipWaiting = False, claimed = False\<rparr>"

definition origin :: string where
  "origin = ''https://abdulqadirahmed.github.io''"

definition absolute_url :: "string \<Rightarrow> string" where
  "absolute_url u = (if startsWith u ''/'' then origin @ u else u)"

definition page_request :: "string \<Rightarrow> request" where
  "page_request path =
     \<lparr>url = origin @ path, req_method = ''GET'', protocol = ''https:'',
      hostname = ''abdulqadirahmed.github.io'', pathname = path,
      accept = Some ''text/html''\<rparr>"

definition offline :: network where
  "offline = (\<lambda>u. NetworkError)"

definition online :: network where
  "online = (\<lambda>u. Received (resp u))"

definition cdn_request :: request where
  "cdn_request =
     \<lparr>url = ''https://cdn.jsdelivr.net/npm/chart.js'', req_method = ''GET'',
      protocol = ''https:'', hostname = ''cdn.jsdelivr.net'', pathname = ''/npm/chart.js'',
      accept = None\<rparr>"

definition fonts_request :: request where
  "fonts_request =
     \<lparr>url = ''https://fonts.googleapis.com/css2?family=Inter:wght@300;400;500;600;700;800;900&display=swap'',
      req_method = ''GET'', protocol = ''https:'', hostname = ''fonts.googleapis.com'',
      pathname = ''/css2'', accept = Some ''text/css,*/*;q=0.1''\<rparr>"

definition firestore_request :: request where
  "firestore_request =
     \<lparr>url = ''https://firestore.googleapis.com/v1/projects/p/databases/d/documents'',
      req_method = ''GET'', protocol = ''https:'', hostname = ''firestore.googleapis.com'',
      pathname = ''/v1/projects/p/databases/d/documents'', accept = None\<rparr>"

definition manifest_missing :: network where
  "manifest_missing =
     (\<lambda>u. if u = origin @ ''/manifest.json'' then NetworkError else Received (resp u))"

definition shadowed :: sw_state where
  "shadowed = state_of [(''pharma-cache-v1'', [(origin @ ''/reports'', resp ''stale'')])]"

definition installed :: sw_state where
  "installed = state_of [(CACHE_STATIC, [(origin @ ''/'', resp ''shell'')])]"

definition data_request :: request where
  "data_request =
     \<lparr>url = origin @ ''/data.json'', req_method = ''GET'', protocol = ''https:'',
      hostname = ''abdulqadirahmed.github.io'', pathname = ''/data.json'',
      accept = Some ''application/json''\<rparr>"

definition unavailable :: sw_state where
  "unavailable =
     \<lparr>storage = [(CACHE_CDN, [])], available = False, fetched = [], skipWaiting = False,
      claimed = False\<rparr>"

definition many_urls :: "nat \<Rightarrow> string list" where
  "many_urls n = map (\<lambda>i. ''/page-'' @ replicate i CHR ''x'') [0..<n]"

section \<open>The partition store: basic facts\<close>

lemma map_of_update_partition:
  "map_of (map (\<lambda>(n, es). if n = c then (n, f es) else (n, es)) xs) c' =
     (if c' = c then map_option f (map_of xs c) else map_of xs c')"
  by (induction xs) auto

lemma cache_entries_update_same:
  "map_of (storage st) c = Some es \<Longrightarrow> cache_entries c (update_partition c f st) = f es"
  by (simp add: cache_entries_def update_partition_def map_of_update_partition)

lemma cache_entries_update_other:
  "c' \<noteq> c \<Longrightarrow> cache_entries c' (update_partition c f st) = cache_entries c' st"
  by (simp add: cache_entries_def update_partition_def map_of_update_partition)

lemma map_of_storage_update:
  "map_of (storage (update_partition c f st)) c' =
     (if c' = c then map_option f (map_of (storage st) c) else map_of (storage st) c')"
  by (simp add: update_partition_def map_of_update_partition)

lemma fold_remove_key:
  "fold remove_key ks es = filter (\<lambda>(k, r). k \<notin> set ks) es"
proof (induction ks arbitrary: es)
  case Nil
  show ?case by simp
next
  case (Cons k ks)
  have "filter (\<lambda>(k', r). k' \<notin> set ks) (remove_key k es) =
        filter (\<lambda>(k', r). k' \<notin> set (k # ks)) es"
    unfolding remove_key_def filter_filter
    by (rule filter_cong) auto
  with Cons show ?case by simp
qed

lemma fold_cache_delete:
  "map_of (storage st) c = Some es \<Longrightarrow>
   map_of (storage (fold (cache_delete c) ks st)) c = Some (fold remove_key ks es)"
proof (induction ks arbitrary: st es)
  case Nil
  then show ?case by simp
next
  case (Cons k ks)
  have "map_of (storage (cache_delete c k st)) c = Some (remove_key k es)"
    using Cons.prems by (simp add: cache_delete_def map_of_storage_update)
  from Cons.IH [OF this] show ?case by simp
qed

lemma filter_take_keys:
  "distinct (map fst es) \<Longrightarrow>
   filter (\<lambda>(k, r). k \<notin> set (take n (map fst es))) es = drop n es"
proof (induction es arbitrary: n)
  case Nil
  show ?case by simp
next
  case (Cons e es)
  obtain k r where e: "e = (k, r)" by (cases e)
  show ?case
  proof (cases n)
    case 0
    then show ?thesis by simp
  next
    case (Suc m)
    have notin: "k \<notin> fst ` set es" using Cons.prems e by simp
    have "filter (\<lambda>(k', r). k' \<notin> set (take n (map fst (e # es)))) (e # es) =
          filter (\<lambda>(k', r). k' \<noteq> k \<and> k' \<notin> set (take m (map fst es))) es"
      using e Suc by (auto intro: filter_cong)
    also have "\<dots> = filter (\<lambda>(k', r). k' \<notin> set (take m (map fst es))) es"
      using notin by (intro filter_cong) (auto simp: image_iff)
    also have "\<dots> = drop m es" using Cons.IH Cons.prems by simp
    finally show ?thesis using Suc by simp
  qed
qed

lemma limitCacheSize_entries:
  assumes "available st" "map_of (storage st) cacheName = Some es" "distinct (map fst es)"
  shows "map_of (storage (limitCacheSize cacheName maxSize st)) cacheName =
           Some (drop (length es - maxSize) es)"
proof -
  have mem: "cacheName \<in> set (caches_keys st)"
    using assms(2) by (auto simp: caches_keys_def dest: map_of_SomeD intro: rev_image_eqI)
  have opened: "caches_open cacheName st = Some st"
    using assms(1) mem by (simp add: caches_open_def)
  have keys: "cache_keys cacheName st = map fst es"
    using assms(2) by (simp add: cache_keys_def cache_entries_def)
  show ?thesis
  proof (cases "length es > maxSize")
    case True
    have "map_of (storage (fold (cache_delete cacheName) (take (length es - maxSize) (map fst es)) st)) cacheName
          = Some (fold remove_key (take (length es - maxSize) (map fst es)) es)"
      by (rule fold_cache_delete [OF assms(2)])
    then show ?thesis
      using True assms(3)
      by (simp add: limitCacheSize_def opened keys fold_remove_key filter_take_keys)
  next
    case False
    then show ?thesis
      using assms(2) by (simp add: limitCacheSize_def opened keys)
  qed
qed

lemma caches_open_existing:
  "available st \<Longrightarrow> map_of (storage st) c = Some es \<Longrightarrow> caches_open c st = Some st"
  by (auto simp: caches_open_def caches_keys_def dest!: map_of_SomeD intro: rev_image_eqI)

lemma caches_open_unavailable: "\<not> available st \<Longrightarrow> caches_open c st = None"
  by (simp add: caches_open_def)

lemma caches_open_available:
  assumes "available st"
  obtains st1 where "caches_open c st = Some st1" "available st1"
    "map_of (storage st1) c = Some (cache_entries c st)"
    "\<And>c'. cache_entries c' st1 = cache_entries c' st"
    "fetched st1 = fetched st" "skipWaiting st1 = skipWaiting st"
proof (cases "c \<in> set (caches_keys st)")
  case True
  then obtain es where es: "map_of (storage st) c = Some es"
    by (metis caches_keys_def map_of_eq_None_iff not_Some_eq set_map)
  show ?thesis
    by (rule that [of st]) (use assms True es in \<open>simp_all add: caches_open_def cache_entries_def\<close>)
next
  case False
  then have none: "map_of (storage st) c = None"
    by (simp add: caches_keys_def map_of_eq_None_iff)
  show ?thesis
  proof (rule that [of "st\<lparr>storage := storage st @ [(c, [])]\<rparr>"])
    show "caches_open c st = Some (st\<lparr>storage := storage st @ [(c, [])]\<rparr>)"
      using assms False by (simp add: caches_open_def)
    show "map_of (storage (st\<lparr>storage := storage st @ [(c, [])]\<rparr>)) c = Some (cache_entries c st)"
      using none by (simp add: cache_entries_def map_add_def)
    show "cache_entries c' (st\<lparr>storage := storage st @ [(c, [])]\<rparr>) = cache_entries c' st" for c'
      using none by (auto simp: cache_entries_def map_add_def split: option.splits)
  qed (use assms in simp_all)
qed

lemma cache_match_exists:
  "cache_match c k st = Some r \<Longrightarrow> \<exists>es. map_of (storage st) c = Some es"
  by (auto simp: cache_match_def cache_entries_def split: option.splits)

lemma map_of_remove_key_same: "map_of (remove_key k es) k = None"
  by (induction es) (auto simp: remove_key_def)

lemma map_of_remove_key_other: "k' \<noteq> k \<Longrightarrow> map_of (remove_key k es) k' = map_of es k'"
  by (induction es) (auto simp: remove_key_def)

lemma remove_key_absent: "map_of es k = None \<Longrightarrow> remove_key k es = es"
  by (induction es) (auto simp: remove_key_def split: if_splits)

lemma cache_put_entries:
  "map_of (storage st) c = Some es \<Longrightarrow>
   map_of (storage (cache_put c k r st)) c = Some (remove_key k es @ [(k, r)])"
  by (simp add: cache_put_def map_of_storage_update)

lemma cache_put_match_same:
  "map_of (storage st) c = Some es \<Longrightarrow> cache_match c k (cache_put c k r st) = Some r"
  by (simp add: cache_match_def cache_entries_def cache_put_entries map_add_def
      map_of_remove_key_same)

lemma cache_put_match_other:
  "k' \<noteq> k \<Longrightarrow> cache_match c k' (cache_put c k r st) = cache_match c k' st"
  by (cases "map_of (storage st) c")
     (auto simp: cache_match_def cache_entries_def cache_put_def map_of_storage_update
        map_add_def map_of_remove_key_other split: option.splits)

lemma cache_put_other_partition:
  "c' \<noteq> c \<Longrightarrow> cache_entries c' (cache_put c k r st) = cache_entries c' st"
  by (simp add: cache_put_def cache_entries_update_other)

lemma cache_put_fields [simp]:
  "available (cache_put c k r st) = available st"
  "fetched (cache_put c k r st) = fetched st"
  "skipWaiting (cache_put c k r st) = skipWaiting st"
  by (simp_all add: cache_put_def update_partition_def)

lemma map_of_filter_keys:
  "map_of (filter (\<lambda>(k', r). k' \<notin> S) xs) k = (if k \<in> S then None else map_of xs k)"
  by (induction xs) auto

lemma update_partition_fields [simp]:
  "available (update_partition c f st) = available st"
  "fetched (update_partition c f st) = fetched st"
  "skipWaiting (update_partition c f st) = skipWaiting st"
  "claimed (update_partition c f st) = claimed st"
  by (simp_all add: update_partition_def)

lemma fold_cache_delete_fields [simp]:
  "available (fold (cache_delete c) ks st) = available st"
  "fetched (fold (cache_delete c) ks st) = fetched st"
  "skipWaiting (fold (cache_delete c) ks st) = skipWaiting st"
  by (induction ks arbitrary: st) (simp_all add: cache_delete_def)

lemma caches_open_fields:
  "caches_open c st = Some st1 \<Longrightarrow>
   available st1 \<and> fetched st1 = fetched st \<and> skipWaiting st1 = skipWaiting st"
  by (auto simp: caches_open_def split: if_splits)

lemma limitCacheSize_fields [simp]:
  "available (limitCacheSize c m st) = available st"
  "fetched (limitCacheSize c m st) = fetched st"
  "skipWaiting (limitCacheSize c m st) = skipWaiting st"
  by (auto simp: limitCacheSize_def Let_def split: option.splits dest: caches_open_fields
      simp: caches_open_def)

lemma limitCacheSize_exists:
  assumes "available st"
  shows "\<exists>es. map_of (storage (limitCacheSize c m st)) c = Some es"
proof -
  obtain st1 where st1: "caches_open c st = Some st1"
    "map_of (storage st1) c = Some (cache_entries c st)"
    using assms by (rule caches_open_available [of st c]) blast
  show ?thesis
    using st1(1) st1(2) fold_cache_delete [OF st1(2)]
    by (simp add: limitCacheSize_def Let_def)
qed

lemma limit_then_put:
  assumes "available st"
  shows "cache_match c k (cache_put c k r (limitCacheSize c m st)) = Some r"
proof -
  obtain es where "map_of (storage (limitCacheSize c m st)) c = Some es"
    using limitCacheSize_exists [OF assms] by blast
  then show ?thesis by (rule cache_put_match_same)
qed

subsection \<open>Serve-stale-then-refresh\<close>

lemma staleWhileRevalidate_available:
  "available st \<Longrightarrow> available (snd (staleWhileRevalidate net req c st))"
  by (auto simp: staleWhileRevalidate_def fetch_def Let_def
      split: option.splits net_outcome.splits dest: caches_open_fields)

lemma staleWhileRevalidate_answer:
  assumes "available st"
  shows "fst (staleWhileRevalidate net req c st) =
           (case cache_match c (url req) st of
              Some r \<Rightarrow> Answer r
            | None \<Rightarrow> (case net (url req) of NetworkError \<Rightarrow> Null | Received r \<Rightarrow> Answer r))"
proof -
  obtain st1 where st1: "caches_open c st = Some st1"
    "cache_entries c st1 = cache_entries c st"
    using assms by (rule caches_open_available [of st c]) blast
  have "cache_match c (url req) st1 = cache_match c (url req) st"
    using st1(2) by (simp add: cache_match_def)
  then show ?thesis
    using st1(1)
    by (simp add: staleWhileRevalidate_def fetch_def Let_def
        split: option.splits net_outcome.splits)
qed

lemma staleWhileRevalidate_refresh:
  assumes "available st" and "net (url req) = Received r" and "ok r"
  shows "cache_match c (url req) (snd (staleWhileRevalidate net req c st)) = Some r"
proof -
  obtain st1 where st1: "caches_open c st = Some st1" "available st1"
    "map_of (storage st1) c = Some (cache_entries c st)"
    using assms(1) by (rule caches_open_available [of st c]) blast
  let ?st2 = "st1\<lparr>fetched := fetched st1 @ [url req]\<rparr>"
  have "available ?st2" using st1(2) by simp
  then have "cache_match c (url req)
          (cache_put c (url req) r (limitCacheSize c MAX_CDN_CACHE_SIZE ?st2)) = Some r"
    by (rule limit_then_put)
  then show ?thesis
    using st1(1) assms(2,3)
    by (simp add: staleWhileRevalidate_def fetch_def Let_def split: option.splits)
qed

lemma staleWhileRevalidate_no_refresh:
  assumes "available st" and "\<forall>r. net (url req) = Received r \<longrightarrow> \<not> ok r"
  shows "cache_entries c (snd (staleWhileRevalidate net req c st)) = cache_entries c st"
proof -
  obtain st1 where st1: "caches_open c st = Some st1"
    "cache_entries c st1 = cache_entries c st"
    using assms(1) by (rule caches_open_available [of st c]) blast
  show ?thesis
    using st1 assms(2)
    by (auto simp: staleWhileRevalidate_def fetch_def Let_def cache_entries_def
        split: option.splits net_outcome.splits)
qed

subsection \<open>Deleting partitions\<close>

lemma fold_conditional_delete:
  "storage (fold (\<lambda>n s. if P n then caches_delete n s else s) ns st) =
     filter (\<lambda>(n, es). \<not> (P n \<and> n \<in> set ns)) (storage st)"
proof (induction ns arbitrary: st)
  case Nil
  show ?case by simp
next
  case (Cons a ns)
  show ?case
    by (auto simp: Cons.IH caches_delete_def intro: filter_cong)
qed

lemma fold_caches_delete:
  "storage (fold caches_delete ns st) = filter (\<lambda>(n, es). n \<notin> set ns) (storage st)"
  using fold_conditional_delete [of "\<lambda>n. True" ns st] by simp

lemma on_activate_storage:
  "available st \<Longrightarrow>
   storage (snd (on_activate st)) = filter (\<lambda>(n, es). \<not> is_old_cache n) (storage st)"
  by (auto simp: on_activate_def Let_def fold_conditional_delete caches_keys_def
      intro!: filter_cong intro: rev_image_eqI)

subsection \<open>Adding a list of URLs\<close>

lemma put_fetched_exists:
  "map_of (storage st) c = Some es \<Longrightarrow> \<exists>es'. map_of (storage (put_fetched net c k st)) c = Some es'"
  by (auto simp: put_fetched_def cache_put_entries split: net_outcome.splits)

lemma fold_put_fetched_exists:
  "map_of (storage st) c = Some es \<Longrightarrow>
   \<exists>es'. map_of (storage (fold (put_fetched net c) ks st)) c = Some es'"
proof (induction ks arbitrary: st es)
  case Nil
  then show ?case by simp
next
  case (Cons k ks)
  from put_fetched_exists [OF Cons.prems, of net k]
  obtain es' where "map_of (storage (put_fetched net c k st)) c = Some es'" by blast
  from Cons.IH [OF this] show ?case by simp
qed

lemma put_fetched_received:
  "net k = Received r \<Longrightarrow> put_fetched net c k st = cache_put c k r st"
  by (simp add: put_fetched_def)

lemma put_fetched_match_other:
  "x \<noteq> k \<Longrightarrow> cache_match c k (put_fetched net c x st) = cache_match c k st"
  by (simp add: put_fetched_def cache_put_match_other split: net_outcome.splits)

lemma fold_put_fetched_match:
  assumes "map_of (storage st) c = Some es" and "k \<in> set ks" and "net k = Received r"
  shows "cache_match c k (fold (put_fetched net c) ks st) = Some r"
  using assms(2)
proof (induction ks rule: rev_induct)
  case Nil
  then show ?case by simp
next
  case (snoc x xs)
  obtain es' where es': "map_of (storage (fold (put_fetched net c) xs st)) c = Some es'"
    using fold_put_fetched_exists [OF assms(1)] by blast
  show ?case
  proof (cases "x = k")
    case True
    then show ?thesis
      using assms(3) es' by (simp add: put_fetched_received cache_put_match_same)
  next
    case False
    then have "k \<in> set xs" using snoc.prems by simp
    then have "cache_match c k (fold (put_fetched net c) xs st) = Some r" by (rule snoc.IH)
    then show ?thesis
      using False by (simp add: put_fetched_match_other)
  qed
qed

lemma put_fetched_fields [simp]:
  "available (put_fetched net c k st) = available st"
  "fetched (put_fetched net c k st) = fetched st"
  "skipWaiting (put_fetched net c k st) = skipWaiting st"
  by (simp_all add: put_fetched_def split: net_outcome.splits)

lemma fold_put_fetched_fields [simp]:
  "available (fold (put_fetched net c) ks st) = available st"
  "fetched (fold (put_fetched net c) ks st) = fetched st"
  "skipWaiting (fold (put_fetched net c) ks st) = skipWaiting st"
  by (induction ks arbitrary: st) simp_all

lemma cache_addAll_rejects:
  "\<not> list_all (fetched_ok net) (map absolute urls) \<Longrightarrow>
   cache_addAll absolute net c urls st =
     (False, st\<lparr>fetched := fetched st @ map absolute urls\<rparr>)"
  by (simp add: cache_addAll_def Let_def)

lemma cache_addAll_fulfils:
  "list_all (fetched_ok net) (map absolute urls) \<Longrightarrow> distinct urls \<Longrightarrow>
   cache_addAll absolute net c urls st =
     (True, fold (put_fetched net c) (map absolute urls)
              (st\<lparr>fetched := fetched st @ map absolute urls\<rparr>))"
  by (simp add: cache_addAll_def Let_def)

lemma STATIC_ASSETS_distinct: "distinct STATIC_ASSETS"
  by (simp add: STATIC_ASSETS_def)

subsection \<open>Pre-warming the dynamic partition\<close>

lemma fold_put_fetched_keys:
  assumes "map_of (storage st) c = Some es"
    and "list_all (fetched_ok net) ks"
    and "distinct ks"
    and "set ks \<inter> fst ` set es = {}"
  shows "\<exists>es'. map_of (storage (fold (put_fetched net c) ks st)) c = Some es' \<and>
               map fst es' = map fst es @ ks"
  using assms
proof (induction ks arbitrary: st es)
  case Nil
  then show ?case by simp
next
  case (Cons k ks)
  from Cons.prems(2) obtain r where r: "net k = Received r"
    by (auto simp: fetched_ok_def split: net_outcome.splits)
  have "k \<notin> fst ` set es" using Cons.prems(4) by auto
  then have absent: "map_of es k = None" by (simp add: map_of_eq_None_iff)
  have st': "map_of (storage (put_fetched net c k st)) c = Some (es @ [(k, r)])"
    using Cons.prems(1) r absent
    by (simp add: put_fetched_received cache_put_entries remove_key_absent)
  have "\<exists>es'. map_of (storage (fold (put_fetched net c) ks (put_fetched net c k st))) c = Some es' \<and>
               map fst es' = map fst (es @ [(k, r)]) @ ks"
    using st'
  proof (rule Cons.IH)
    show "list_all (fetched_ok net) ks" using Cons.prems(2) by simp
    show "distinct ks" using Cons.prems(3) by simp
    show "set ks \<inter> fst ` set (es @ [(k, r)]) = {}"
      using Cons.prems(3,4) by auto
  qed
  then show ?case by simp
qed

lemma cacheUrls_keeps_all:
  assumes "available st"
    and "cache_entries CACHE_DYNAMIC st = []"
    and "list_all (fetched_ok net) (map absolute us)"
    and "distinct (map absolute us)"
  shows "cache_keys CACHE_DYNAMIC (cacheUrls absolute net (Some us) st) = map absolute us"
proof -
  obtain st1 where st1: "caches_open CACHE_DYNAMIC st = Some st1"
    "map_of (storage st1) CACHE_DYNAMIC = Some (cache_entries CACHE_DYNAMIC st)"
    using assms(1) by (rule caches_open_available [of st CACHE_DYNAMIC]) blast
  let ?st1' = "st1\<lparr>fetched := fetched st1 @ map absolute us\<rparr>"
  have "map_of (storage ?st1') CACHE_DYNAMIC = Some []"
    using st1(2) assms(2) by simp
  from fold_put_fetched_keys [OF this assms(3,4)]
  obtain es' where es': "map_of (storage (fold (put_fetched net CACHE_DYNAMIC) (map absolute us) ?st1'))
      CACHE_DYNAMIC = Some es'" "map fst es' = map absolute us"
    by auto
  have "cacheUrls absolute net (Some us) st =
          fold (put_fetched net CACHE_DYNAMIC) (map absolute us) ?st1'"
    using st1(1) assms(3) distinct_map [THEN iffD1, OF assms(4)]
    by (simp add: cacheUrls_def cache_addAll_fulfils)
  then show ?thesis
    using es' by (simp add: cache_keys_def cache_entries_def)
qed

lemma many_urls_absolute:
  "map absolute_url (many_urls n) = map (\<lambda>i. origin @ ''/page-'' @ replicate i CHR ''x'') [0..<n]"
  by (simp add: many_urls_def absolute_url_def startsWith_def)

lemma many_urls_distinct: "distinct (map absolute_url (many_urls n))"
proof -
  have "inj (\<lambda>i. origin @ ''/page-'' @ replicate i CHR ''x'')"
  proof (rule injI)
    fix i j :: nat
    assume "origin @ ''/page-'' @ replicate i CHR ''x'' = origin @ ''/page-'' @ replicate j CHR ''x''"
    then have "replicate i CHR ''x'' = replicate j CHR ''x''" by simp
    then have "length (replicate i CHR ''x'') = length (replicate j CHR ''x'')" by (rule arg_cong)
    then show "i = j" by simp
  qed
  then have "inj_on (\<lambda>i. origin @ ''/page-'' @ replicate i CHR ''x'') (set [0..<n])"
    by (rule inj_on_subset) simp
  then show ?thesis
    by (simp add: many_urls_absolute distinct_map)
qed

subsection \<open>Fetch-first\<close>

lemma update_partition_twice:
  "update_partition c f (update_partition c g st) = update_partition c (\<lambda>es. f (g es)) st"
proof -
  have "map (\<lambda>(n, es). if n = c then (n, f es) else (n, es))
          (map (\<lambda>(n, es). if n = c then (n, g es) else (n, es)) xs) =
        map (\<lambda>(n, es). if n = c then (n, f (g es)) else (n, es)) xs"
    for xs :: "(string \<times> partition) list"
    by (induction xs) auto
  then show ?thesis by (simp add: update_partition_def del: map_map)
qed

lemma update_partition_id: "update_partition c (\<lambda>es. es) st = st"
proof -
  have "map (\<lambda>(n, es). if n = c then (n, es) else (n, es)) xs = xs" for xs :: "(string \<times> partition) list"
    by (induction xs) auto
  then show ?thesis by (simp add: update_partition_def)
qed

lemma fold_cache_delete_update:
  "fold (cache_delete c) ks st = update_partition c (fold remove_key ks) st"
proof (induction ks arbitrary: st)
  case Nil
  show ?case by (simp add: update_partition_id)
next
  case (Cons k ks)
  have "fold (cache_delete c) (k # ks) st =
          update_partition c (fold remove_key ks) (cache_delete c k st)"
    by (simp add: Cons.IH)
  also have "\<dots> = update_partition c (fold remove_key (k # ks)) st"
    by (simp add: cache_delete_def update_partition_twice comp_def)
  finally show ?case .
qed

lemma storage_match_updated:
  assumes "c \<in> fst ` set cs"
    and "\<forall>(n, es) \<in> set cs. n \<noteq> c \<longrightarrow> map_of es k = None"
    and "\<And>es. map_of (g es) k = Some x"
  shows "storage_match k (map (\<lambda>(n, es). if n = c then (n, g es) else (n, es)) cs) = Some x"
  using assms(1,2)
proof (induction cs)
  case Nil
  then show ?case by simp
next
  case (Cons p cs)
  obtain n es where p: "p = (n, es)" by (cases p)
  show ?case
  proof (cases "n = c")
    case True
    then show ?thesis using p assms(3) by simp
  next
    case False
    then have "c \<in> fst ` set cs" using Cons.prems(1) p by auto
    moreover have "\<forall>(n, es) \<in> set cs. n \<noteq> c \<longrightarrow> map_of es k = None"
      using Cons.prems(2) by simp
    ultimately have "storage_match k (map (\<lambda>(n, es). if n = c then (n, g es) else (n, es)) cs) = Some x"
      by (rule Cons.IH)
    moreover have "map_of es k = None" using Cons.prems(2) p False by simp
    ultimately show ?thesis using p False by simp
  qed
qed

lemma caches_open_storage:
  assumes "caches_open c st = Some st1"
  shows "c \<in> fst ` set (storage st1)"
    and "storage st1 = storage st \<or> storage st1 = storage st @ [(c, [])]"
  using assms by (auto simp: caches_open_def caches_keys_def split: if_splits)

lemma limitCacheSize_update:
  assumes "available st" and "map_of (storage st) c = Some es0"
  obtains g where "limitCacheSize c maxSize st = update_partition c g st"
proof -
  have opened: "caches_open c st = Some st"
    using assms by (rule caches_open_existing)
  show ?thesis
  proof (cases "length (cache_keys c st) > maxSize")
    case True
    then have "limitCacheSize c maxSize st =
                 update_partition c
                   (fold remove_key (take (length (cache_keys c st) - maxSize) (cache_keys c st))) st"
      by (simp add: limitCacheSize_def opened fold_cache_delete_update Let_def)
    then show ?thesis by (rule that)
  next
    case False
    then have "limitCacheSize c maxSize st = update_partition c (\<lambda>es. es) st"
      by (simp add: limitCacheSize_def opened update_partition_id)
    then show ?thesis by (rule that)
  qed
qed

lemma limit_then_put_update:
  assumes "available st" and "map_of (storage st) c = Some es0"
  obtains g where
    "cache_put c k x (limitCacheSize c maxSize st) = update_partition c g st"
    "\<And>es. map_of (g es) k = Some x"
proof -
  obtain h where h: "limitCacheSize c maxSize st = update_partition c h st"
    using assms by (rule limitCacheSize_update)
  have "cache_put c k x (limitCacheSize c maxSize st) =
          update_partition c (\<lambda>es. remove_key k (h es) @ [(k, x)]) st"
    by (simp add: h cache_put_def update_partition_twice)
  moreover have "map_of (remove_key k (h es) @ [(k, x)]) k = Some x" for es
    by (simp add: map_add_def map_of_remove_key_same)
  ultimately show ?thesis by (rule that)
qed

lemma caches_match_fetched [simp]:
  "caches_match k (st\<lparr>fetched := f\<rparr>) = caches_match k st"
  by (simp add: caches_match_def)

lemma cache_match_fetched [simp]:
  "cache_match c k (st\<lparr>fetched := f\<rparr>) = cache_match c k st"
  by (simp add: cache_match_def cache_entries_def)

lemma networkFirst_fallback_answer:
  assumes "available st"
  shows "fst (networkFirst_fallback absolute req st) =
           (case caches_match (url req) st of
              Some cachedResponse \<Rightarrow> Answer cachedResponse
            | None \<Rightarrow>
                if accepts_html req
                then (case cache_match CACHE_STATIC (absolute ''/'') st of
                        Some fallback \<Rightarrow> Answer fallback
                      | None \<Rightarrow> Answer offline_no_cache)
                else Answer offline_no_cache)"
proof -
  obtain st1 where st1: "caches_open CACHE_STATIC st = Some st1"
    "cache_entries CACHE_STATIC st1 = cache_entries CACHE_STATIC st"
    using assms by (rule caches_open_available [of st CACHE_STATIC]) blast
  have "cache_match CACHE_STATIC (absolute ''/'') st1 = cache_match CACHE_STATIC (absolute ''/'') st"
    using st1(2) by (simp add: cache_match_def)
  then show ?thesis
    using assms st1(1) by (simp add: networkFirst_fallback_def split: option.splits)
qed

lemma networkFirst_offline:
  assumes "available st" and "net (url req) = NetworkError"
  shows "fst (networkFirst absolute net req c st) =
           (case caches_match (url req) st of
              Some cachedResponse \<Rightarrow> Answer cachedResponse
            | None \<Rightarrow>
                if accepts_html req
                then (case cache_match CACHE_STATIC (absolute ''/'') st of
                        Some fallback \<Rightarrow> Answer fallback
                      | None \<Rightarrow> Answer offline_no_cache)
                else Answer offline_no_cache)"
proof -
  have "fst (networkFirst absolute net req c st) =
          fst (networkFirst_fallback absolute req (st\<lparr>fetched := fetched st @ [url req]\<rparr>))"
    using assms(2) by (simp add: networkFirst_def fetch_def at_return_def split: prod.splits)
  also have "\<dots> = (case caches_match (url req) (st\<lparr>fetched := fetched st @ [url req]\<rparr>) of
              Some cachedResponse \<Rightarrow> Answer cachedResponse
            | None \<Rightarrow>
                if accepts_html req
                then (case cache_match CACHE_STATIC (absolute ''/'')
                             (st\<lparr>fetched := fetched st @ [url req]\<rparr>) of
                        Some fallback \<Rightarrow> Answer fallback
                      | None \<Rightarrow> Answer offline_no_cache)
                else Answer offline_no_cache)"
    using assms(1) by (intro networkFirst_fallback_answer) simp
  finally show ?thesis
    by (simp split: option.splits)
qed

lemma networkFirst_stores:
  assumes "available st" and "net (url req) = Received x" and "ok x"
  shows "fst (networkFirst absolute net req c st) = Answer x"
    and "cache_entries c (fst (snd (networkFirst absolute net req c st))) = cache_entries c st"
    and "available (snd (snd (networkFirst absolute net req c st)))"
    and "cache_match c (url req) (snd (snd (networkFirst absolute net req c st))) = Some x"
    and "\<forall>(n, es) \<in> set (storage st). n \<noteq> c \<longrightarrow> map_of es (url req) = None \<Longrightarrow>
         caches_match (url req) (snd (snd (networkFirst absolute net req c st))) = Some x"
proof -
  let ?st1 = "st\<lparr>fetched := fetched st @ [url req]\<rparr>"
  have av1: "available ?st1" using assms(1) by simp
  obtain st2 where st2: "caches_open c ?st1 = Some st2" "available st2"
    "map_of (storage st2) c = Some (cache_entries c ?st1)"
    "cache_entries c st2 = cache_entries c ?st1"
    using av1 by (rule caches_open_available [of ?st1 c]) blast
  have names: "c \<in> fst ` set (storage st2)"
    using st2(1) by (rule caches_open_storage)
  obtain g where g:
    "cache_put c (url req) x (limitCacheSize c MAX_DYNAMIC_CACHE_SIZE st2) = update_partition c g st2"
    "\<And>es. map_of (g es) (url req) = Some x"
    by (rule limit_then_put_update [OF st2(2) st2(3), where k = "url req" and x = x]) blast
  have run: "networkFirst absolute net req c st = (Answer x, st2, update_partition c g st2)"
    using assms(2,3) st2(1) g(1) by (simp add: networkFirst_def fetch_def)
  show "fst (networkFirst absolute net req c st) = Answer x"
    by (simp add: run)
  show "cache_entries c (fst (snd (networkFirst absolute net req c st))) = cache_entries c st"
    using st2(4) by (simp add: run cache_entries_def)
  show "available (snd (snd (networkFirst absolute net req c st)))"
    using st2(2) by (simp add: run)
  show "cache_match c (url req) (snd (snd (networkFirst absolute net req c st))) = Some x"
    using st2(3) g(2)
    by (simp add: run cache_match_def cache_entries_def map_of_storage_update)
  assume shadow: "\<forall>(n, es) \<in> set (storage st). n \<noteq> c \<longrightarrow> map_of es (url req) = None"
  have "storage st2 = storage st \<or> storage st2 = storage st @ [(c, [])]"
    using caches_open_storage(2) [OF st2(1)] by simp
  then have others: "\<forall>(n, es) \<in> set (storage st2). n \<noteq> c \<longrightarrow> map_of es (url req) = None"
    using shadow by auto
  show "caches_match (url req) (snd (snd (networkFirst absolute net req c st))) = Some x"
    using storage_match_updated [OF names others g(2)]
    by (simp add: run caches_match_def update_partition_def)
qed

subsection \<open>Evaluation on concrete data\<close>

lemmas eval_defs = on_fetch_def is_firebase_def FIREBASE_HOSTS_def startsWith_def
  handleFetchRequest_def STATIC_ASSETS_def is_cdn_def CDN_RESOURCES_def
  cacheFirst_def staleWhileRevalidate_def networkFirst_def networkFirst_fallback_def
  at_return_def settled_def fetch_def caches_open_def caches_keys_def
  cache_put_def update_partition_def remove_key_def limitCacheSize_def cache_keys_def
  cache_entries_def cache_match_def caches_match_def cache_delete_def accepts_html_def
  MAX_DYNAMIC_CACHE_SIZE_def MAX_CDN_CACHE_SIZE_def
  CACHE_STATIC_def CACHE_DYNAMIC_def CACHE_CDN_def CACHE_VERSION_def
  state_of_def page_request_def origin_def resp_def ok_def online_def offline_def
  absolute_url_def offline_no_cache_def offline_resource_def Let_def

section \<open>The claims\<close>

text \<open>
  C1, as the code has it. Pre-population is all-or-nothing for the contents of the static
  partition: when the fetch of one of the three required entries fails or is not ok,
  nothing is written and \<open>skipWaiting\<close> is not called; when all three succeed,
  all three are stored and \<open>skipWaiting\<close> is called. But the handler catches the
  failure and only logs it, so the promise given to \<open>waitUntil\<close> fulfils in every
  case, and the install phase itself never fails.
\<close>

theorem on_install_catches_failure:
  "install_phase (fst (on_install absolute net st)) = Installed \<and>
   (available st \<and> \<not> list_all (fetched_ok net) (map absolute STATIC_ASSETS) \<longrightarrow>
      cache_entries CACHE_STATIC (snd (on_install absolute net st)) =
        cache_entries CACHE_STATIC st \<and>
      skipWaiting (snd (on_install absolute net st)) = skipWaiting st) \<and>
   (available st \<and> list_all (fetched_ok net) (map absolute STATIC_ASSETS) \<longrightarrow>
      (\<forall>u \<in> set STATIC_ASSETS. \<exists>r. net (absolute u) = Received r \<and>
         cache_match CACHE_STATIC (absolute u) (snd (on_install absolute net st)) = Some r) \<and>
      skipWaiting (snd (on_install absolute net st)))"
proof (intro conjI impI ballI)
  show "install_phase (fst (on_install absolute net st)) = Installed"
    by (simp add: on_install_def install_phase_def split: option.splits prod.splits bool.splits)
next
  assume a: "available st \<and> \<not> list_all (fetched_ok net) (map absolute STATIC_ASSETS)"
  then obtain st1 where st1: "caches_open CACHE_STATIC st = Some st1"
    "cache_entries CACHE_STATIC st1 = cache_entries CACHE_STATIC st"
    "skipWaiting st1 = skipWaiting st"
    using caches_open_available [of st CACHE_STATIC] by metis
  have rej: "cache_addAll absolute net CACHE_STATIC STATIC_ASSETS st1 =
               (False, st1\<lparr>fetched := fetched st1 @ map absolute STATIC_ASSETS\<rparr>)"
    using a by (simp add: cache_addAll_rejects)
  show "cache_entries CACHE_STATIC (snd (on_install absolute net st)) =
          cache_entries CACHE_STATIC st"
    using st1 by (simp add: on_install_def rej cache_entries_def)
  show "skipWaiting (snd (on_install absolute net st)) = skipWaiting st"
    using st1 by (simp add: on_install_def rej)
next
  assume a: "available st \<and> list_all (fetched_ok net) (map absolute STATIC_ASSETS)"
  then obtain st1 where st1: "caches_open CACHE_STATIC st = Some st1"
    "map_of (storage st1) CACHE_STATIC = Some (cache_entries CACHE_STATIC st)"
    using caches_open_available [of st CACHE_STATIC] by metis
  let ?st1' = "st1\<lparr>fetched := fetched st1 @ map absolute STATIC_ASSETS\<rparr>"
  have ful: "cache_addAll absolute net CACHE_STATIC STATIC_ASSETS st1 =
               (True, fold (put_fetched net CACHE_STATIC) (map absolute STATIC_ASSETS) ?st1')"
    using a by (simp add: cache_addAll_fulfils STATIC_ASSETS_distinct)
  show "skipWaiting (snd (on_install absolute net st))"
    using st1 by (simp add: on_install_def ful)
  fix u
  assume u: "u \<in> set STATIC_ASSETS"
  then have "fetched_ok net (absolute u)"
    using a by (simp add: list_all_iff)
  then obtain r where r: "net (absolute u) = Received r"
    by (auto simp: fetched_ok_def split: net_outcome.splits)
  have "map_of (storage ?st1') CACHE_STATIC = Some (cache_entries CACHE_STATIC st)"
    using st1(2) by simp
  then have "cache_match CACHE_STATIC (absolute u)
               (fold (put_fetched net CACHE_STATIC) (map absolute STATIC_ASSETS) ?st1') = Some r"
    by (rule fold_put_fetched_match) (use u r in simp_all)
  then have "cache_match CACHE_STATIC (absolute u) (snd (on_install absolute net st)) = Some r"
    using st1 by (simp add: on_install_def ful cache_match_def cache_entries_def)
  with r show "\<exists>r. net (absolute u) = Received r \<and>
         cache_match CACHE_STATIC (absolute u) (snd (on_install absolute net st)) = Some r"
    by blast
qed

theorem on_install_catches_failure_witness:
  "available (state_of []) \<and>
   \<not> list_all (fetched_ok manifest_missing) (map absolute_url STATIC_ASSETS) \<and>
   install_phase (fst (on_install absolute_url manifest_missing (state_of []))) = Installed \<and>
   cache_entries CACHE_STATIC (snd (on_install absolute_url manifest_missing (state_of []))) = [] \<and>
   \<not> skipWaiting (snd (on_install absolute_url manifest_missing (state_of []))) \<and>
   list_all (fetched_ok online) (map absolute_url STATIC_ASSETS) \<and>
   cache_match CACHE_STATIC (absolute_url ''/manifest.json'')
     (snd (on_install absolute_url online (state_of []))) = Some (resp (origin @ ''/manifest.json'')) \<and>
   skipWaiting (snd (on_install absolute_url online (state_of [])))"
  using on_install_catches_failure [of absolute_url manifest_missing "state_of []"]
    on_install_catches_failure [of absolute_url online "state_of []"]
  by (simp add: state_of_def STATIC_ASSETS_def fetched_ok_def manifest_missing_def online_def
      absolute_url_def startsWith_def origin_def resp_def ok_def cache_entries_def)

text \<open>
  C1, as stated, fails: with \<open>/manifest.json\<close> unreachable the install phase
  still ends with the worker installed, on an empty static partition.
\<close>

theorem install_all_or_nothing_counterexample:
  "\<not> fetched_ok manifest_missing (absolute_url ''/manifest.json'') \<and>
   install_phase (fst (on_install absolute_url manifest_missing (state_of []))) = Installed \<and>
   cache_entries CACHE_STATIC (snd (on_install absolute_url manifest_missing (state_of []))) = []"
  by (simp add: on_install_def install_phase_def caches_open_def caches_keys_def state_of_def
      cache_addAll_def Let_def STATIC_ASSETS_def fetched_ok_def manifest_missing_def
      absolute_url_def startsWith_def origin_def cache_entries_def
      CACHE_STATIC_def CACHE_VERSION_def)

text \<open>
  C2 does not hold of the code. A remote-asset request with nothing stored and the network
  down is answered with \<open>null\<close>: stale-while-revalidate turns the failed fetch into
  \<open>null\<close> and returns it for want of a stored entry. With the store unreachable,
  stale-while-revalidate rejects (it has no \<open>try\<close>), and so does fetch-first,
  whose \<open>catch\<close> block reads the store unguarded, even when the network had
  answered. Only serve-from-store-first catches the failure and answers with the 503.
\<close>

theorem strategies_null_and_rejection:
  "fst (on_fetch absolute_url offline cdn_request (state_of [])) = RespondWith Null \<and>
   fst (on_fetch absolute_url online cdn_request unavailable) = RespondWith Rejected \<and>
   fst (on_fetch absolute_url online (page_request ''/reports'') unavailable) = RespondWith Rejected \<and>
   fst (on_fetch absolute_url offline (page_request ''/reports'') unavailable) = RespondWith Rejected \<and>
   fst (on_fetch absolute_url online (page_request ''/index.html'') unavailable) =
     RespondWith (Answer offline_resource)"
  by (simp add: unavailable_def cdn_request_def eval_defs)

text \<open>
  C3. \<open>limitCacheSize(cacheName, maxSize)\<close> on a partition that holds the entries
  \<open>es\<close>, one per request identity, oldest first: the partition afterwards is
  \<open>es\<close> without its first \<open>length es - maxSize\<close> entries. So nothing is
  deleted when the count is at most \<open>maxSize\<close>; otherwise exactly the oldest
  \<open>count - maxSize\<close> entries go, and the \<open>maxSize\<close> entries inserted last
  stay, in their order. Lookups (\<open>cache_match\<close>) only read, so they never reorder.
\<close>

theorem limitCacheSize_fifo:
  assumes "available st"
    and "map_of (storage st) cacheName = Some es"
    and "distinct (map fst es)"
  shows "cache_entries cacheName (limitCacheSize cacheName maxSize st) =
           drop (length es - maxSize) es \<and>
         (length es \<le> maxSize \<longrightarrow>
            cache_entries cacheName (limitCacheSize cacheName maxSize st) = es) \<and>
         (length es > maxSize \<longrightarrow>
            length (cache_entries cacheName (limitCacheSize cacheName maxSize st)) = maxSize \<and>
            es = take (length es - maxSize) es @
                 cache_entries cacheName (limitCacheSize cacheName maxSize st))"
proof -
  have "cache_entries cacheName (limitCacheSize cacheName maxSize st) =
          drop (length es - maxSize) es"
    using limitCacheSize_entries [OF assms] by (simp add: cache_entries_def)
  then show ?thesis by simp
qed

theorem limitCacheSize_fifo_witness:
  "available (state_of [(CACHE_CDN, [(''a'', resp ''1''), (''b'', resp ''2''), (''c'', resp ''3'')])]) \<and>
   distinct (map fst [(''a'', resp ''1''), (''b'', resp ''2''), (''c'', resp ''3'')]) \<and>
   length [(''a'', resp ''1''), (''b'', resp ''2''), (''c'', resp ''3'')] > (2::nat) \<and>
   cache_entries CACHE_CDN
     (limitCacheSize CACHE_CDN 2
        (state_of [(CACHE_CDN, [(''a'', resp ''1''), (''b'', resp ''2''), (''c'', resp ''3'')])]))
   = [(''b'', resp ''2''), (''c'', resp ''3'')] \<and>
   cache_entries CACHE_CDN
     (limitCacheSize CACHE_CDN 5
        (state_of [(CACHE_CDN, [(''a'', resp ''1''), (''b'', resp ''2''), (''c'', resp ''3'')])]))
   = [(''a'', resp ''1''), (''b'', resp ''2''), (''c'', resp ''3'')]"
  using limitCacheSize_fifo [of "state_of [(CACHE_CDN, [(''a'', resp ''1''), (''b'', resp ''2''), (''c'', resp ''3'')])]"
      CACHE_CDN "[(''a'', resp ''1''), (''b'', resp ''2''), (''c'', resp ''3'')]" 2]
    limitCacheSize_fifo [of "state_of [(CACHE_CDN, [(''a'', resp ''1''), (''b'', resp ''2''), (''c'', resp ''3'')])]"
      CACHE_CDN "[(''a'', resp ''1''), (''b'', resp ''2''), (''c'', resp ''3'')]" 5]
  by (simp add: state_of_def)

text \<open>
  C6. Serve-from-store-first, on an available store. When the partition holds an entry
  for the request, \<open>cacheFirst\<close> answers with that entry and leaves the whole state
  as it was: in particular the log of network fetches does not grow. When it holds none,
  exactly one fetch, of this request, is added to the log; the answer is the network's
  response, or the synthetic 503 when the network fails; and the partition gains the
  entry only when the response is ok, and is otherwise unchanged.
\<close>

theorem cacheFirst_hit_and_miss:
  assumes "available st"
  shows "(\<forall>c. cache_match cacheName (url req) st = Some c \<longrightarrow>
            cacheFirst net req cacheName st = (Answer c, st)) \<and>
         (cache_match cacheName (url req) st = None \<longrightarrow>
            fetched (snd (cacheFirst net req cacheName st)) = fetched st @ [url req] \<and>
            (case net (url req) of
               NetworkError \<Rightarrow>
                 fst (cacheFirst net req cacheName st) = Answer offline_resource \<and>
                 cache_entries cacheName (snd (cacheFirst net req cacheName st)) =
                   cache_entries cacheName st
             | Received r \<Rightarrow>
                 fst (cacheFirst net req cacheName st) = Answer r \<and>
                 cache_entries cacheName (snd (cacheFirst net req cacheName st)) =
                   (if ok r then cache_entries cacheName st @ [(url req, r)]
                    else cache_entries cacheName st)))"
proof (intro conjI allI impI)
  fix c
  assume hit: "cache_match cacheName (url req) st = Some c"
  then obtain es where "map_of (storage st) cacheName = Some es"
    using cache_match_exists by blast
  then have "caches_open cacheName st = Some st"
    using assms by (rule caches_open_existing [rotated])
  then show "cacheFirst net req cacheName st = (Answer c, st)"
    using hit by (simp add: cacheFirst_def)
next
  assume miss: "cache_match cacheName (url req) st = None"
  obtain st1 where st1: "caches_open cacheName st = Some st1"
    "map_of (storage st1) cacheName = Some (cache_entries cacheName st)"
    "cache_entries cacheName st1 = cache_entries cacheName st"
    "fetched st1 = fetched st"
    using assms by (rule caches_open_available [of st cacheName]) blast
  have miss1: "cache_match cacheName (url req) st1 = None"
    using miss st1(3) by (simp add: cache_match_def)
  have absent: "map_of (cache_entries cacheName st) (url req) = None"
    using miss by (simp add: cache_match_def)
  show "fetched (snd (cacheFirst net req cacheName st)) = fetched st @ [url req]"
    using st1 miss1
    by (simp add: cacheFirst_def fetch_def split: net_outcome.splits)
  show "case net (url req) of
          NetworkError \<Rightarrow>
            fst (cacheFirst net req cacheName st) = Answer offline_resource \<and>
            cache_entries cacheName (snd (cacheFirst net req cacheName st)) =
              cache_entries cacheName st
        | Received r \<Rightarrow>
            fst (cacheFirst net req cacheName st) = Answer r \<and>
            cache_entries cacheName (snd (cacheFirst net req cacheName st)) =
              (if ok r then cache_entries cacheName st @ [(url req, r)]
               else cache_entries cacheName st)"
  proof (cases "net (url req)")
    case NetworkError
    then show ?thesis
      using st1 miss1 by (simp add: cacheFirst_def fetch_def cache_entries_def)
  next
    case (Received r)
    have "map_of (storage (st1\<lparr>fetched := fetched st1 @ [url req]\<rparr>)) cacheName =
            Some (cache_entries cacheName st)"
      using st1(2) by simp
    from cache_put_entries [OF this, of "url req" r]
    have "cache_entries cacheName
            (cache_put cacheName (url req) r (st1\<lparr>fetched := fetched st1 @ [url req]\<rparr>)) =
          cache_entries cacheName st @ [(url req, r)]"
      using absent by (simp add: cache_entries_def remove_key_absent)
    then show ?thesis
      using Received st1 miss1 by (simp add: cacheFirst_def fetch_def cache_entries_def)
  qed
qed

theorem cacheFirst_hit_and_miss_witness:
  "available (state_of [(CACHE_STATIC, [(origin @ ''/'', resp ''shell'')])]) \<and>
   cache_match CACHE_STATIC (url (page_request ''/''))
     (state_of [(CACHE_STATIC, [(origin @ ''/'', resp ''shell'')])]) = Some (resp ''shell'') \<and>
   cacheFirst online (page_request ''/'') CACHE_STATIC
     (state_of [(CACHE_STATIC, [(origin @ ''/'', resp ''shell'')])]) =
     (Answer (resp ''shell''), state_of [(CACHE_STATIC, [(origin @ ''/'', resp ''shell'')])]) \<and>
   cache_match CACHE_STATIC (url (page_request ''/index.html''))
     (state_of [(CACHE_STATIC, [(origin @ ''/'', resp ''shell'')])]) = None \<and>
   fetched (snd (cacheFirst online (page_request ''/index.html'') CACHE_STATIC
     (state_of [(CACHE_STATIC, [(origin @ ''/'', resp ''shell'')])]))) = [origin @ ''/index.html''] \<and>
   cache_entries CACHE_STATIC (snd (cacheFirst online (page_request ''/index.html'') CACHE_STATIC
     (state_of [(CACHE_STATIC, [(origin @ ''/'', resp ''shell'')])]))) =
     [(origin @ ''/'', resp ''shell''), (origin @ ''/index.html'', resp (origin @ ''/index.html''))]"
  using cacheFirst_hit_and_miss [of "state_of [(CACHE_STATIC, [(origin @ ''/'', resp ''shell'')])]"
      CACHE_STATIC "page_request ''/''" online]
    cacheFirst_hit_and_miss [of "state_of [(CACHE_STATIC, [(origin @ ''/'', resp ''shell'')])]"
      CACHE_STATIC "page_request ''/index.html''" online]
  by (simp add: state_of_def page_request_def cache_match_def cache_entries_def online_def
      resp_def ok_def origin_def)

text \<open>
  C4 does not hold of the code. \<open>cacheUrls\<close> writes into the dynamic partition and
  never calls \<open>limitCacheSize\<close>: pre-warming an empty partition with 51 URLs
  leaves 51 entries, one more than \<open>MAX_DYNAMIC_CACHE_SIZE\<close>.
\<close>

theorem cacheUrls_exceeds_limit:
  "length (cache_keys CACHE_DYNAMIC
     (on_message absolute_url online
        (Some \<lparr>msg_type = ''CACHE_URLS'', msg_urls = Some (many_urls 51)\<rparr>) (state_of []))) = 51 \<and>
   MAX_DYNAMIC_CACHE_SIZE < 51"
proof -
  have "list_all (fetched_ok online) (map absolute_url (many_urls 51))"
    by (simp add: list_all_iff fetched_ok_def online_def resp_def ok_def)
  then have "cache_keys CACHE_DYNAMIC (cacheUrls absolute_url online (Some (many_urls 51)) (state_of [])) =
          map absolute_url (many_urls 51)"
    by (intro cacheUrls_keeps_all many_urls_distinct)
       (simp_all add: state_of_def cache_entries_def)
  then show ?thesis
    by (simp add: on_message_def Let_def many_urls_def MAX_DYNAMIC_CACHE_SIZE_def)
qed

text \<open>
  C5. Serve-stale-then-refresh, on an available store. When the partition holds an entry
  for the request, the answer is that entry, whatever the network does (\<open>net\<close> is
  arbitrary): neither the response nor the failure of the background fetch reaches the
  caller. When it holds none, the answer is the outcome of the fetch: the response, or
  \<open>null\<close> when the network fails. In both cases an ok response of the fetch is
  stored, and the next request for the same identity is answered with it; a fetch that
  fails, or a response that is not ok, leaves the partition as it was.
\<close>

theorem staleWhileRevalidate_serves_stored:
  assumes "available st"
  shows "(\<forall>c. cache_match cacheName (url req) st = Some c \<longrightarrow>
            fst (staleWhileRevalidate net req cacheName st) = Answer c) \<and>
         (cache_match cacheName (url req) st = None \<longrightarrow>
            fst (staleWhileRevalidate net req cacheName st) =
              (case net (url req) of NetworkError \<Rightarrow> Null | Received r \<Rightarrow> Answer r)) \<and>
         (\<forall>r. net (url req) = Received r \<and> ok r \<longrightarrow>
            cache_match cacheName (url req) (snd (staleWhileRevalidate net req cacheName st)) =
              Some r \<and>
            (\<forall>net'. fst (staleWhileRevalidate net' req cacheName
                            (snd (staleWhileRevalidate net req cacheName st))) = Answer r)) \<and>
         ((\<forall>r. net (url req) = Received r \<longrightarrow> \<not> ok r) \<longrightarrow>
            cache_entries cacheName (snd (staleWhileRevalidate net req cacheName st)) =
              cache_entries cacheName st)"
proof (intro conjI allI impI)
  fix c
  assume "cache_match cacheName (url req) st = Some c"
  then show "fst (staleWhileRevalidate net req cacheName st) = Answer c"
    using assms by (simp add: staleWhileRevalidate_answer)
next
  assume "cache_match cacheName (url req) st = None"
  then show "fst (staleWhileRevalidate net req cacheName st) =
               (case net (url req) of NetworkError \<Rightarrow> Null | Received r \<Rightarrow> Answer r)"
    using assms by (simp add: staleWhileRevalidate_answer)
next
  fix r
  assume r: "net (url req) = Received r \<and> ok r"
  then show stored: "cache_match cacheName (url req)
                       (snd (staleWhileRevalidate net req cacheName st)) = Some r"
    using assms by (simp add: staleWhileRevalidate_refresh)
  fix net'
  have "available (snd (staleWhileRevalidate net req cacheName st))"
    using assms by (rule staleWhileRevalidate_available)
  then show "fst (staleWhileRevalidate net' req cacheName
                    (snd (staleWhileRevalidate net req cacheName st))) = Answer r"
    using stored by (simp add: staleWhileRevalidate_answer)
next
  assume "\<forall>r. net (url req) = Received r \<longrightarrow> \<not> ok r"
  then show "cache_entries cacheName (snd (staleWhileRevalidate net req cacheName st)) =
               cache_entries cacheName st"
    using assms by (rule staleWhileRevalidate_no_refresh [rotated])
qed

theorem staleWhileRevalidate_serves_stored_witness:
  "available (state_of [(CACHE_CDN, [(''https://cdn.jsdelivr.net/npm/chart.js'', resp ''old'')])]) \<and>
   cache_match CACHE_CDN (url cdn_request)
     (state_of [(CACHE_CDN, [(''https://cdn.jsdelivr.net/npm/chart.js'', resp ''old'')])]) = Some (resp ''old'') \<and>
   online (url cdn_request) = Received (resp ''https://cdn.jsdelivr.net/npm/chart.js'') \<and>
   ok (resp ''https://cdn.jsdelivr.net/npm/chart.js'') \<and>
   fst (staleWhileRevalidate online cdn_request CACHE_CDN
     (state_of [(CACHE_CDN, [(''https://cdn.jsdelivr.net/npm/chart.js'', resp ''old'')])])) = Answer (resp ''old'') \<and>
   fst (staleWhileRevalidate offline cdn_request CACHE_CDN
     (snd (staleWhileRevalidate online cdn_request CACHE_CDN
       (state_of [(CACHE_CDN, [(''https://cdn.jsdelivr.net/npm/chart.js'', resp ''old'')])])))) =
     Answer (resp ''https://cdn.jsdelivr.net/npm/chart.js'') \<and>
   cache_match CACHE_CDN (url cdn_request) (state_of []) = None \<and>
   fst (staleWhileRevalidate online cdn_request CACHE_CDN (state_of [])) =
     Answer (resp ''https://cdn.jsdelivr.net/npm/chart.js'') \<and>
   offline (url cdn_request) = NetworkError \<and>
   fst (staleWhileRevalidate offline cdn_request CACHE_CDN (state_of [])) = Null \<and>
   cache_entries CACHE_CDN (snd (staleWhileRevalidate offline cdn_request CACHE_CDN (state_of []))) = []"
  using staleWhileRevalidate_serves_stored [of
      "state_of [(CACHE_CDN, [(''https://cdn.jsdelivr.net/npm/chart.js'', resp ''old'')])]"
      CACHE_CDN cdn_request online]
    staleWhileRevalidate_serves_stored [of "state_of []" CACHE_CDN cdn_request online]
    staleWhileRevalidate_serves_stored [of "state_of []" CACHE_CDN cdn_request offline]
  by (simp add: state_of_def cdn_request_def cache_match_def cache_entries_def online_def
      offline_def resp_def ok_def)

text \<open>
  C7, as the code has it. Fetch-first on an available store. An ok response is returned
  and a copy is written to the partition by a put that is not awaited: at the moment the
  response is returned the partition holds what it held before the request, and the copy
  is there once the put has settled. On a network failure the fallback is
  \<open>caches.match\<close>, which searches every partition of the origin in the order of
  creation: the answer is the first entry found for the identity; when there is none, the
  entry of the static partition for \<open>/\<close> if the request accepts HTML and that
  entry exists, and the synthetic 503 otherwise. So, once the put has settled, a later
  failure returns the stored response provided no partition of another name holds an
  entry for the same identity.
\<close>

theorem networkFirst_round_trip:
  assumes "available st"
  shows "(\<forall>x. net (url req) = Received x \<and> ok x \<longrightarrow>
            fst (networkFirst absolute net req cacheName st) = Answer x \<and>
            cache_entries cacheName (fst (snd (networkFirst absolute net req cacheName st))) =
              cache_entries cacheName st \<and>
            cache_match cacheName (url req)
              (snd (snd (networkFirst absolute net req cacheName st))) = Some x \<and>
            ((\<forall>(n, es) \<in> set (storage st). n \<noteq> cacheName \<longrightarrow> map_of es (url req) = None) \<longrightarrow>
               (\<forall>net'. net' (url req) = NetworkError \<longrightarrow>
                  fst (networkFirst absolute net' req cacheName
                         (snd (snd (networkFirst absolute net req cacheName st)))) = Answer x))) \<and>
         (net (url req) = NetworkError \<longrightarrow>
            fst (networkFirst absolute net req cacheName st) =
              (case caches_match (url req) st of
                 Some cachedResponse \<Rightarrow> Answer cachedResponse
               | None \<Rightarrow>
                   if accepts_html req
                   then (case cache_match CACHE_STATIC (absolute ''/'') st of
                           Some fallback \<Rightarrow> Answer fallback
                         | None \<Rightarrow> Answer offline_no_cache)
                   else Answer offline_no_cache))"
proof (intro conjI allI impI)
  fix x
  assume a: "net (url req) = Received x \<and> ok x"
  then have rx: "net (url req) = Received x" and okx: "ok x" by simp_all
  note facts = networkFirst_stores [where st = st and net = net and req = req and x = x
      and absolute = absolute and c = cacheName, OF assms rx okx]
  show "fst (networkFirst absolute net req cacheName st) = Answer x"
    by (rule facts(1))
  show "cache_entries cacheName (fst (snd (networkFirst absolute net req cacheName st))) =
          cache_entries cacheName st"
    by (rule facts(2))
  show "cache_match cacheName (url req)
          (snd (snd (networkFirst absolute net req cacheName st))) = Some x"
    by (rule facts(4))
  fix net' :: network
  assume "\<forall>(n, es) \<in> set (storage st). n \<noteq> cacheName \<longrightarrow> map_of es (url req) = None"
    and "net' (url req) = NetworkError"
  then show "fst (networkFirst absolute net' req cacheName
                    (snd (snd (networkFirst absolute net req cacheName st)))) = Answer x"
    using facts(3) facts(5) by (simp add: networkFirst_offline)
next
  assume "net (url req) = NetworkError"
  then show "fst (networkFirst absolute net req cacheName st) =
              (case caches_match (url req) st of
                 Some cachedResponse \<Rightarrow> Answer cachedResponse
               | None \<Rightarrow>
                   if accepts_html req
                   then (case cache_match CACHE_STATIC (absolute ''/'') st of
                           Some fallback \<Rightarrow> Answer fallback
                         | None \<Rightarrow> Answer offline_no_cache)
                   else Answer offline_no_cache)"
    using assms by (rule networkFirst_offline [rotated])
qed

theorem networkFirst_round_trip_witness:
  "available installed \<and>
   online (url (page_request ''/reports'')) = Received (resp (origin @ ''/reports'')) \<and>
   ok (resp (origin @ ''/reports'')) \<and>
   fst (networkFirst absolute_url online (page_request ''/reports'') CACHE_DYNAMIC installed) =
     Answer (resp (origin @ ''/reports'')) \<and>
   cache_entries CACHE_DYNAMIC
     (fst (snd (networkFirst absolute_url online (page_request ''/reports'') CACHE_DYNAMIC installed))) = [] \<and>
   cache_match CACHE_DYNAMIC (url (page_request ''/reports''))
     (snd (snd (networkFirst absolute_url online (page_request ''/reports'') CACHE_DYNAMIC installed))) =
     Some (resp (origin @ ''/reports'')) \<and>
   fst (networkFirst absolute_url offline (page_request ''/reports'') CACHE_DYNAMIC
          (snd (snd (networkFirst absolute_url online (page_request ''/reports'') CACHE_DYNAMIC
                       installed)))) =
     Answer (resp (origin @ ''/reports'')) \<and>
   offline (url (page_request ''/reports'')) = NetworkError \<and>
   caches_match (url (page_request ''/reports'')) installed = None \<and>
   accepts_html (page_request ''/reports'') \<and>
   fst (networkFirst absolute_url offline (page_request ''/reports'') CACHE_DYNAMIC installed) =
     Answer (resp ''shell'') \<and>
   \<not> accepts_html data_request \<and>
   fst (networkFirst absolute_url offline data_request CACHE_DYNAMIC installed) =
     Answer offline_no_cache"
proof -
  have av: "available installed"
    by (simp add: installed_def state_of_def)
  have hyp: "online (url (page_request ''/reports'')) = Received (resp (origin @ ''/reports'')) \<and>
      ok (resp (origin @ ''/reports''))"
    by (simp add: online_def page_request_def resp_def ok_def)
  have alone: "\<forall>(n, es) \<in> set (storage installed).
         n \<noteq> CACHE_DYNAMIC \<longrightarrow> map_of es (url (page_request ''/reports'')) = None"
    by (simp add: installed_def state_of_def page_request_def origin_def)
  have off: "offline (url (page_request ''/reports'')) = NetworkError"
    "offline (url data_request) = NetworkError"
    by (simp_all add: offline_def)
  have misc: "caches_match (url (page_request ''/reports'')) installed = None"
    "accepts_html (page_request ''/reports'')"
    "\<not> accepts_html data_request"
    "caches_match (url data_request) installed = None"
    "cache_match CACHE_STATIC (absolute_url ''/'') installed = Some (resp ''shell'')"
    "cache_entries CACHE_DYNAMIC installed = []"
    by (simp_all add: installed_def data_request_def eval_defs)
  note t1 = networkFirst_round_trip [OF av, where net = online and req = "page_request ''/reports''"
      and cacheName = CACHE_DYNAMIC and absolute = absolute_url]
  note t2 = networkFirst_round_trip [OF av, where net = offline and req = "page_request ''/reports''"
      and cacheName = CACHE_DYNAMIC and absolute = absolute_url]
  note t3 = networkFirst_round_trip [OF av, where net = offline and req = data_request
      and cacheName = CACHE_DYNAMIC and absolute = absolute_url]
  from t1 hyp alone
  have a: "fst (networkFirst absolute_url online (page_request ''/reports'') CACHE_DYNAMIC installed) =
      Answer (resp (origin @ ''/reports''))"
    and r: "cache_entries CACHE_DYNAMIC
      (fst (snd (networkFirst absolute_url online (page_request ''/reports'') CACHE_DYNAMIC installed))) =
      cache_entries CACHE_DYNAMIC installed"
    and s: "cache_match CACHE_DYNAMIC (url (page_request ''/reports''))
      (snd (snd (networkFirst absolute_url online (page_request ''/reports'') CACHE_DYNAMIC installed))) =
      Some (resp (origin @ ''/reports''))"
    and b: "\<forall>net'. net' (url (page_request ''/reports'')) = NetworkError \<longrightarrow>
       fst (networkFirst absolute_url net' (page_request ''/reports'') CACHE_DYNAMIC
          (snd (snd (networkFirst absolute_url online (page_request ''/reports'') CACHE_DYNAMIC
                       installed)))) =
     Answer (resp (origin @ ''/reports''))"
    by blast+
  from b off(1)
  have c: "fst (networkFirst absolute_url offline (page_request ''/reports'') CACHE_DYNAMIC
          (snd (snd (networkFirst absolute_url online (page_request ''/reports'') CACHE_DYNAMIC
                       installed)))) =
     Answer (resp (origin @ ''/reports''))"
    by blast
  from t2 off(1) misc
  have d: "fst (networkFirst absolute_url offline (page_request ''/reports'') CACHE_DYNAMIC installed) =
     Answer (resp ''shell'')"
    by simp
  from t3 off(2) misc
  have e: "fst (networkFirst absolute_url offline data_request CACHE_DYNAMIC installed) =
     Answer offline_no_cache"
    by simp
  show ?thesis
    using av hyp off(1) misc(1,2,3,6) a r s c d e by simp
qed

text \<open>
  C7, as stated, fails twice. The copy is not stored before the live response is
  returned: at the return of an ok response the dynamic partition holds no entry for the
  request. And a stored copy is not always what a later failure returns: a partition of
  another name, created earlier and holding an entry for the same identity, is found
  first, and the failure after a successful fetch returns that entry, not the response
  stored.
\<close>

theorem networkFirst_round_trip_counterexample:
  "fst (networkFirst absolute_url online (page_request ''/reports'') CACHE_DYNAMIC installed) =
     Answer (resp (origin @ ''/reports'')) \<and>
   ok (resp (origin @ ''/reports'')) \<and>
   cache_match CACHE_DYNAMIC (url (page_request ''/reports''))
     (fst (snd (networkFirst absolute_url online (page_request ''/reports'') CACHE_DYNAMIC installed))) =
     None \<and>
   fst (on_fetch absolute_url online (page_request ''/reports'') shadowed) =
     RespondWith (Answer (resp (origin @ ''/reports''))) \<and>
   cache_match CACHE_DYNAMIC (origin @ ''/reports'')
     (snd (on_fetch absolute_url online (page_request ''/reports'') shadowed)) =
     Some (resp (origin @ ''/reports'')) \<and>
   fst (on_fetch absolute_url offline (page_request ''/reports'')
          (snd (on_fetch absolute_url online (page_request ''/reports'') shadowed))) =
     RespondWith (Answer (resp ''stale'')) \<and>
   resp ''stale'' \<noteq> resp (origin @ ''/reports'')"
  by (simp add: shadowed_def installed_def eval_defs)

text \<open>
  C8. Activation, on an available store: the promise given to \<open>waitUntil\<close>
  fulfils, and the store afterwards is the store before without the partitions that
  \<open>is_old_cache\<close> selects. So every remaining partition whose name starts with
  \<open>saladin-pharma-\<close> is one of the three partitions of the current version; the
  partitions of an earlier version are gone.
\<close>

theorem on_activate_purges_old_versions:
  assumes "available st"
  shows "fst (on_activate st) \<and>
         storage (snd (on_activate st)) = filter (\<lambda>(n, es). \<not> is_old_cache n) (storage st) \<and>
         (\<forall>n \<in> set (caches_keys (snd (on_activate st))).
            startsWith n ''saladin-pharma-'' \<longrightarrow>
            n = CACHE_STATIC \<or> n = CACHE_DYNAMIC \<or> n = CACHE_CDN)"
proof (intro conjI ballI impI)
  show "fst (on_activate st)"
    using assms by (simp add: on_activate_def Let_def)
  show "storage (snd (on_activate st)) = filter (\<lambda>(n, es). \<not> is_old_cache n) (storage st)"
    using assms by (rule on_activate_storage)
next
  fix n
  assume "n \<in> set (caches_keys (snd (on_activate st)))"
    and "startsWith n ''saladin-pharma-''"
  then show "n = CACHE_STATIC \<or> n = CACHE_DYNAMIC \<or> n = CACHE_CDN"
    using assms by (auto simp: caches_keys_def on_activate_storage is_old_cache_def)
qed

theorem on_activate_purges_old_versions_witness:
  "available (snd (on_install absolute_url online
      (state_of [(''saladin-pharma-v2.0.0-static'', [(origin @ ''/'', resp ''v2'')]),
                 (''saladin-pharma-v2.0.0-dynamic'', []),
                 (''workbox-precache'', [])]))) \<and>
   caches_keys (snd (on_activate (snd (on_install absolute_url online
      (state_of [(''saladin-pharma-v2.0.0-static'', [(origin @ ''/'', resp ''v2'')]),
                 (''saladin-pharma-v2.0.0-dynamic'', []),
                 (''workbox-precache'', [])]))))) =
     [''workbox-precache'', CACHE_STATIC] \<and>
   startsWith CACHE_STATIC ''saladin-pharma-''"
  using on_activate_purges_old_versions [of "snd (on_install absolute_url online
      (state_of [(''saladin-pharma-v2.0.0-static'', [(origin @ ''/'', resp ''v2'')]),
                 (''saladin-pharma-v2.0.0-dynamic'', []),
                 (''workbox-precache'', [])]))"]
  by (simp add: on_install_def caches_open_def caches_keys_def state_of_def cache_addAll_def
      STATIC_ASSETS_def fetched_ok_def online_def resp_def ok_def Let_def put_fetched_def
      cache_put_def update_partition_def remove_key_def is_old_cache_def startsWith_def
      CACHE_STATIC_def CACHE_DYNAMIC_def CACHE_CDN_def CACHE_VERSION_def absolute_url_def origin_def)

text \<open>
  C9. A request whose hostname contains one of \<open>FIREBASE_HOSTS\<close> is not
  intercepted: the fetch handler returns before \<open>respondWith\<close>, and the state
  (partitions and fetch log) is untouched, whatever the partitions hold. The test comes
  before the classification, so it also holds for the Google Fonts stylesheet of
  \<open>CDN_RESOURCES\<close>, which the classification would hand to
  stale-while-revalidate.
\<close>

theorem excluded_hosts_pass_through:
  "(list_ex (\<lambda>host. includes_str (hostname req) host) FIREBASE_HOSTS \<longrightarrow>
      on_fetch absolute net req st = (PassThrough, st)) \<and>
   is_cdn fonts_request \<and>
   on_fetch absolute net fonts_request st = (PassThrough, st)"
proof (intro conjI impI)
  assume "list_ex (\<lambda>host. includes_str (hostname req) host) FIREBASE_HOSTS"
  then show "on_fetch absolute net req st = (PassThrough, st)"
    by (simp add: on_fetch_def is_firebase_def)
next
  show "is_cdn fonts_request"
    by (simp add: is_cdn_def fonts_request_def CDN_RESOURCES_def startsWith_def)
next
  have "includes_str (hostname fonts_request) ''googleapis.com''"
    by (simp add: fonts_request_def startsWith_def)
  then have "is_firebase fonts_request"
    by (simp add: is_firebase_def FIREBASE_HOSTS_def)
  then show "on_fetch absolute net fonts_request st = (PassThrough, st)"
    by (simp add: on_fetch_def)
qed

theorem excluded_hosts_pass_through_witness:
  "list_ex (\<lambda>host. includes_str (hostname firestore_request) host) FIREBASE_HOSTS \<and>
   caches_match (url firestore_request)
     (state_of [(CACHE_DYNAMIC, [(url firestore_request, resp ''cached'')])]) = Some (resp ''cached'') \<and>
   on_fetch absolute_url offline firestore_request
     (state_of [(CACHE_DYNAMIC, [(url firestore_request, resp ''cached'')])]) =
     (PassThrough, state_of [(CACHE_DYNAMIC, [(url firestore_request, resp ''cached'')])])"
  using excluded_hosts_pass_through [of firestore_request absolute_url offline
      "state_of [(CACHE_DYNAMIC, [(url firestore_request, resp ''cached'')])]"]
  by (simp add: firestore_request_def FIREBASE_HOSTS_def startsWith_def caches_match_def state_of_def)

text \<open>
  C10. \<open>clearAllCaches\<close>, and so the message \<open>CLEAR_CACHE\<close>, on an available
  store: no partition of any name is left, whether or not its name starts with
  \<open>saladin-pharma-\<close>.
\<close>

theorem clearAllCaches_deletes_everything:
  assumes "available st"
  shows "caches_keys (clearAllCaches st) = [] \<and>
         caches_keys (on_message absolute net (Some \<lparr>msg_type = ''CLEAR_CACHE'', msg_urls = us\<rparr>) st) = []"
proof -
  have "storage (clearAllCaches st) = []"
    using assms
    by (auto simp: clearAllCaches_def fold_caches_delete caches_keys_def filter_empty_conv
        intro: rev_image_eqI)
  then show ?thesis
    by (simp add: on_message_def Let_def caches_keys_def)
qed

theorem clearAllCaches_deletes_everything_witness:
  "available (state_of [(CACHE_STATIC, [(origin @ ''/'', resp ''shell'')]),
                        (''workbox-precache'', [(origin @ ''/other'', resp ''x'')])]) \<and>
   caches_keys (on_message absolute_url online (Some \<lparr>msg_type = ''CLEAR_CACHE'', msg_urls = None\<rparr>)
     (state_of [(CACHE_STATIC, [(origin @ ''/'', resp ''shell'')]),
                (''workbox-precache'', [(origin @ ''/other'', resp ''x'')])])) = [] \<and>
   \<not> startsWith ''workbox-precache'' ''saladin-pharma-''"
  using clearAllCaches_deletes_everything [of
      "state_of [(CACHE_STATIC, [(origin @ ''/'', resp ''shell'')]),
                 (''workbox-precache'', [(origin @ ''/other'', resp ''x'')])]"
      absolute_url online None]
  by (simp add: state_of_def startsWith_def)

end
